theory Spec2Isabelle
  imports Complex_Main "HOL-Library.Sublist"
begin

text \<open>
  The ranking of search results in the top bar (\<open>searchResults\<close> in the \<open>TopBar\<close>
  component, in its version with the compiled-in catalog and in its version that fetches
  the catalog), the keyboard selection over the results, the loading of the catalog, the
  scroll phase of the top bar, and the section tracker of the hook \<open>useScrollToSection\<close>.
  Scores and priorities are Numbers with integer values, offsets of elements are integers,
  the scroll offset of the window is a real number.
\<close>

section \<open>Strings\<close>

text \<open>
  A string is a list of characters whose codes are read as the code points U+0000 to U+00FF
  (Latin-1).  On this range \<open>String.prototype.toLowerCase\<close> works character by character
  and stays inside the range, and \<open>trim\<close> removes the white space and line terminators
  U+0009 to U+000D, U+0020 and U+00A0.
\<close>

definition isWhiteSpace :: "char \<Rightarrow> bool" where
  "isWhiteSpace c =
     (let n = (of_char c :: nat) in (9 \<le> n \<and> n \<le> 13) \<or> n = 32 \<or> n = 160)"

definition trim :: "string \<Rightarrow> string" where
  "trim s = rev (dropWhile isWhiteSpace (rev (dropWhile isWhiteSpace s)))"

definition lowerChar :: "char \<Rightarrow> char" where
  "lowerChar c =
     (let n = (of_char c :: nat)
      in if (65 \<le> n \<and> n \<le> 90) \<or> (192 \<le> n \<and> n \<le> 222 \<and> n \<noteq> 215)
         then char_of (n + 32) else c)"

definition toLowerCase :: "string \<Rightarrow> string" where
  "toLowerCase s = map lowerChar s"

text \<open>
  \<open>toUpperCase\<close> is not closed on the range: U+00FF and U+00B5 have their capitals at
  U+0178 and U+039C, where the result is \<open>None\<close> here; U+00DF becomes the two letters
  \<open>SS\<close>.  The program itself never upper-cases; the function is the one a caller
  applies to a query before handing it over.
\<close>

definition upperChar :: "char \<Rightarrow> string option" where
  "upperChar c =
     (let n = (of_char c :: nat)
      in if n = 223 then Some ''SS''
         else if n = 255 \<or> n = 181 then None
         else if (97 \<le> n \<and> n \<le> 122) \<or> (224 \<le> n \<and> n \<le> 254 \<and> n \<noteq> 247)
              then Some [char_of (n - 32)]
         else Some [c])"

fun toUpperCase :: "string \<Rightarrow> string option" where
  "toUpperCase [] = Some []"
| "toUpperCase (c # cs) =
     (case upperChar c of
        None \<Rightarrow> None
      | Some u \<Rightarrow> (case toUpperCase cs of None \<Rightarrow> None | Some us \<Rightarrow> Some (u @ us)))"

definition startsWith :: "string \<Rightarrow> string \<Rightarrow> bool" where
  "startsWith s q = prefix q s"

definition includes_s :: "string \<Rightarrow> string \<Rightarrow> bool" where
  "includes_s s q = sublist q s"


section \<open>Numbers\<close>

text \<open>
  Scores and priorities are JavaScript Numbers (binary64 floating point) whose values are
  integers, or infinite; the model keeps the integer.  Every integer of magnitude up to
  \<open>2^53\<close> is a Number.  A larger one is rounded to 53 significant bits, to the nearest
  Number and on a tie to the one with the even significand; from \<open>2^1024 - 2^970\<close> on
  the result is \<open>Infinity\<close>, for which \<open>2^1024\<close> stands.  \<open>toNumber\<close> is the Number that
  a numeric literal denotes, and \<open>numberAdd\<close> is \<open>+\<close> on Numbers: the exact sum, rounded.
\<close>

text \<open>The number of binary digits of a positive integer.\<close>

function bitLength :: "int \<Rightarrow> nat" where
  "bitLength a = (if a \<le> 0 then 0 else Suc (bitLength (a div 2)))"
  by pat_completeness auto
termination
  by (relation "measure nat") auto

declare bitLength.simps [simp del]

definition toNumber :: "int \<Rightarrow> int" where
  "toNumber x =
     (let a = \<bar>x\<bar>
      in if a \<le> 2 ^ 53 then x
         else let ulp = 2 ^ (bitLength a - 53);
                  q = a div ulp;
                  r = a mod ulp;
                  rounded =
                    (if 2 * r < ulp \<or> (2 * r = ulp \<and> even q) then q else q + 1) * ulp
              in sgn x * min rounded (2 ^ 1024))"

definition numberAdd :: "int \<Rightarrow> int \<Rightarrow> int" where
  "numberAdd a b = toNumber (toNumber a + toNumber b)"


section \<open>The search catalog\<close>

text \<open>
  The interface \<open>SearchResult\<close>; its optional fields are options.  Field names that
  Isabelle reserves carry the suffix \<open>_s\<close>.
\<close>

datatype ResultType = Page | Section | Action | Content

record SearchResult =
  id_s :: string
  label :: string
  type_s :: ResultType
  path :: string
  section_s :: "string option"
  keywords_s :: "string list option"
  priority :: "int option"

text \<open>The catalog compiled into the first version of the top bar.\<close>

definition SEARCHABLE_ITEMS :: "SearchResult list" where
  "SEARCHABLE_ITEMS =
   [\<lparr>id_s = ''home'', label = ''Home'', type_s = Page, path = ''/'',
      section_s = None,
      keywords_s = Some [''main'', ''start'', ''landing''],
      priority = Some 100\<rparr>,
    \<lparr>id_s = ''contact'', label = ''Contact Us'', type_s = Page, path = ''/contact'',
      section_s = None,
      keywords_s = Some [''email'', ''phone'', ''support'', ''help'', ''reach'', ''message''],
      priority = Some 100\<rparr>,
    \<lparr>id_s = ''careers'', label = ''Careers'', type_s = Page, path = ''/careers'',
      section_s = None,
      keywords_s = Some [''jobs'', ''hiring'', ''work'', ''employment'', ''openings'', ''join'', ''team''],
      priority = Some 100\<rparr>,
    \<lparr>id_s = ''legal'', label = ''Legal'', type_s = Page, path = ''/legal'',
      section_s = None,
      keywords_s = Some [''terms'', ''privacy'', ''policy'', ''documents''],
      priority = Some 100\<rparr>,
    \<lparr>id_s = ''get-app'', label = ''Get the App'', type_s = Action, path = ''https://app.parkwithparallel.com'',
      section_s = None,
      keywords_s = Some [''download'', ''install'', ''mobile'', ''phone'', ''ios'', ''android''],
      priority = Some 90\<rparr>,
    \<lparr>id_s = ''pay-now'', label = ''Pay for Parking'', type_s = Action, path = ''https://pay.parkwithparallel.com'',
      section_s = None,
      keywords_s = Some [''payment'', ''pay'', ''parking'', ''ticket'', ''fee''],
      priority = Some 90\<rparr>,
    \<lparr>id_s = ''request-demo'', label = ''Request a Demo'', type_s = Action, path = ''/contact'',
      section_s = None,
      keywords_s = Some [''demo'', ''trial'', ''test'', ''try'', ''see''],
      priority = Some 85\<rparr>,
    \<lparr>id_s = ''operator-login'', label = ''Operator Portal Login'', type_s = Action, path = ''https://operator.parkwithparallel.com'',
      section_s = None,
      keywords_s = Some [''login'', ''sign in'', ''portal'', ''dashboard'', ''manage''],
      priority = Some 85\<rparr>,
    \<lparr>id_s = ''mobile-app'', label = ''Mobile App'', type_s = Section, path = ''/'',
      section_s = Some ''app-hero'',
      keywords_s = Some [''app'', ''mobile'', ''phone'', ''download'', ''parking app''],
      priority = Some 80\<rparr>,
    \<lparr>id_s = ''operator-portal'', label = ''Operator Portal'', type_s = Section, path = ''/'',
      section_s = Some ''operator-portal'',
      keywords_s = Some [''operator'', ''portal'', ''management'', ''dashboard'', ''analytics'', ''manage''],
      priority = Some 80\<rparr>,
    \<lparr>id_s = ''trust-badges'', label = ''Trusted Partners'', type_s = Section, path = ''/'',
      section_s = Some ''trust-badges'',
      keywords_s = Some [''partners'', ''trusted'', ''clients'', ''customers''],
      priority = Some 70\<rparr>,
    \<lparr>id_s = ''demo-video'', label = ''Demo Video'', type_s = Section, path = ''/'',
      section_s = Some ''demo-video'',
      keywords_s = Some [''video'', ''demo'', ''watch'', ''see''],
      priority = Some 70\<rparr>,
    \<lparr>id_s = ''tutorials'', label = ''Operator Tutorials'', type_s = Section, path = ''/'',
      section_s = Some ''operator-portal'',
      keywords_s = Some [''tutorial'', ''guide'', ''how to'', ''learn'', ''training''],
      priority = Some 70\<rparr>,
    \<lparr>id_s = ''app-terms'', label = ''App Terms of Service'', type_s = Page, path = ''/legal/app/terms-of-service'',
      section_s = None,
      keywords_s = Some [''terms'', ''service'', ''app'', ''conditions'', ''agreement''],
      priority = Some 60\<rparr>,
    \<lparr>id_s = ''app-privacy'', label = ''App Privacy Policy'', type_s = Page, path = ''/legal/app/privacy-policy'',
      section_s = None,
      keywords_s = Some [''privacy'', ''data'', ''app'', ''personal'', ''information'', ''gdpr''],
      priority = Some 60\<rparr>,
    \<lparr>id_s = ''operator-terms'', label = ''Operator Terms of Service'', type_s = Page, path = ''/legal/operator/terms-of-service'',
      section_s = None,
      keywords_s = Some [''terms'', ''service'', ''operator'', ''conditions'', ''agreement''],
      priority = Some 60\<rparr>,
    \<lparr>id_s = ''operator-privacy'', label = ''Operator Privacy Policy'', type_s = Page, path = ''/legal/operator/privacy-policy'',
      section_s = None,
      keywords_s = Some [''privacy'', ''data'', ''operator'', ''personal'', ''information'', ''alpr'', ''license plate''],
      priority = Some 60\<rparr>,
    \<lparr>id_s = ''content-parking'', label = ''Smart Parking Solutions'', type_s = Content, path = ''/'',
      section_s = Some ''hero'',
      keywords_s = Some [''parking'', ''smart'', ''solution'', ''technology'', ''ai'', ''automated''],
      priority = Some 50\<rparr>,
    \<lparr>id_s = ''content-setup'', label = ''Easy Setup'', type_s = Content, path = ''/'',
      section_s = Some ''setup'',
      keywords_s = Some [''setup'', ''install'', ''configure'', ''quick'', ''easy'', ''minutes''],
      priority = Some 50\<rparr>,
    \<lparr>id_s = ''content-features'', label = ''Platform Features'', type_s = Content, path = ''/'',
      section_s = Some ''feature-grid'',
      keywords_s = Some [''features'', ''capabilities'', ''tools'', ''analytics'', ''reports''],
      priority = Some 50\<rparr>,
    \<lparr>id_s = ''content-ecosystem'', label = ''Parking Ecosystem'', type_s = Content, path = ''/'',
      section_s = Some ''ecosystem'',
      keywords_s = Some [''ecosystem'', ''platform'', ''integration'', ''unified''],
      priority = Some 50\<rparr>,
    \<lparr>id_s = ''job-mobile'', label = ''Mobile Engineer Position'', type_s = Content, path = ''/careers'',
      section_s = None,
      keywords_s = Some [''mobile'', ''engineer'', ''react native'', ''ios'', ''android'', ''developer'', ''job''],
      priority = Some 40\<rparr>,
    \<lparr>id_s = ''job-devops'', label = ''DevOps Engineer Position'', type_s = Content, path = ''/careers'',
      section_s = None,
      keywords_s = Some [''devops'', ''engineer'', ''aws'', ''infrastructure'', ''deployment'', ''job''],
      priority = Some 40\<rparr>,
    \<lparr>id_s = ''job-marketing'', label = ''Marketing Manager Position'', type_s = Content, path = ''/careers'',
      section_s = None,
      keywords_s = Some [''marketing'', ''manager'', ''strategy'', ''content'', ''job''],
      priority = Some 40\<rparr>,
    \<lparr>id_s = ''job-business'', label = ''Business Development Position'', type_s = Content, path = ''/careers'',
      section_s = None,
      keywords_s = Some [''business'', ''development'', ''sales'', ''partnerships'', ''job''],
      priority = Some 40\<rparr>,
    \<lparr>id_s = ''content-email'', label = ''Email Support'', type_s = Content, path = ''/contact'',
      section_s = None,
      keywords_s = Some [''email'', ''support'', ''info@parkwithparallel.com'', ''contact''],
      priority = Some 40\<rparr>,
    \<lparr>id_s = ''content-delete-data'', label = ''Delete My Data'', type_s = Content, path = ''/legal'',
      section_s = None,
      keywords_s = Some [''delete'', ''data'', ''remove'', ''gdpr'', ''privacy'', ''request''],
      priority = Some 40\<rparr>]"

text \<open>The two entries of the example in section 8 of the specification.\<close>

definition payNow :: SearchResult where
  "payNow =
     \<lparr>id_s = ''pay-now'', label = ''Pay Now'', type_s = Action, path = ''/pay'',
      section_s = None, keywords_s = None, priority = Some 90\<rparr>"

definition easySetup :: SearchResult where
  "easySetup =
     \<lparr>id_s = ''content-setup'', label = ''Easy Setup'', type_s = Content, path = ''/'',
      section_s = Some ''setup'', keywords_s = Some [''pay''], priority = Some 50\<rparr>"

text \<open>\<open>item.keywords?.some(f)\<close>: undefined, hence falsy, when the entry has no keywords.\<close>

definition some :: "string list option \<Rightarrow> (string \<Rightarrow> bool) \<Rightarrow> bool" where
  "some ks f = (case ks of None \<Rightarrow> False | Some xs \<Rightarrow> list_ex f xs)"

text \<open>\<open>item.priority || 50\<close>: the right operand whenever the left one is falsy.\<close>

definition priorityOr50 :: "SearchResult \<Rightarrow> int" where
  "priorityOr50 item =
     (case priority item of None \<Rightarrow> 50 | Some p \<Rightarrow> if p = 0 then 50 else p)"

text \<open>The chain of \<open>if\<close> / \<open>else if\<close> that sets \<open>score\<close> before the priority is added.\<close>

definition matchScore :: "string \<Rightarrow> SearchResult \<Rightarrow> int" where
  "matchScore query item =
     (let labelLower = toLowerCase (label item)
      in if labelLower = query then 1000
         else if startsWith labelLower query then 500
         else if includes_s labelLower query then 300
         else if some (keywords_s item) (\<lambda>k. toLowerCase k = query) then 200
         else if some (keywords_s item) (\<lambda>k. startsWith (toLowerCase k) query) then 150
         else if some (keywords_s item) (\<lambda>k. includes_s (toLowerCase k) query) then 100
         else 0)"

text \<open>
  What the \<open>map\<close> callback returns: \<open>{ item, score }\<close>, after \<open>score += ...\<close> on Numbers
  for a positive score.
\<close>

record ScoredItem =
  item :: SearchResult
  score :: int

definition scoreItem :: "string \<Rightarrow> SearchResult \<Rightarrow> ScoredItem" where
  "scoreItem query it =
     (let score0 = matchScore query it;
          score1 = (if score0 > 0 then numberAdd score0 (priorityOr50 it) else score0)
      in \<lparr>item = it, score = score1\<rparr>)"

text \<open>
  \<open>.sort((a, b) => b.score - a.score)\<close>: \<open>Array.prototype.sort\<close> is a stable sort, here
  by descending score; \<open>sort_key\<close> is the stable insertion sort on the negated score.
  The difference of two scores has the sign of their order, and is \<open>NaN\<close>, which the
  sort takes for equal, only for two equal infinite scores.
\<close>

definition sortByScore :: "ScoredItem list \<Rightarrow> ScoredItem list" where
  "sortByScore xs = sort_key (\<lambda>s. - score s) xs"

definition searchResults :: "string \<Rightarrow> SearchResult list \<Rightarrow> SearchResult list" where
  "searchResults searchQuery searchableItems =
     (if trim searchQuery = [] then []
      else let query = toLowerCase searchQuery;
               scoredItems = map (scoreItem query) searchableItems
           in take 8 (map item (sortByScore (filter (\<lambda>s. score s > 0) scoredItems))))"

text \<open>The score that decides the place of an entry for a lower-cased query.\<close>

definition combinedScore :: "string \<Rightarrow> SearchResult \<Rightarrow> int" where
  "combinedScore query e = score (scoreItem query e)"


subsection \<open>The scoring table of the specification\<close>

text \<open>
  The table of section 4.1, row by row in its order, with the rule that the first matching
  row wins and that no matching row means score 0.
\<close>

datatype MatchKind =
  LabelEquals | LabelStartsWith | LabelContains
| KeywordEquals | KeywordStartsWith | KeywordContains

definition keywordSet :: "SearchResult \<Rightarrow> string set" where
  "keywordSet e = (case keywords_s e of None \<Rightarrow> {} | Some ks \<Rightarrow> set ks)"

fun matches :: "MatchKind \<Rightarrow> string \<Rightarrow> SearchResult \<Rightarrow> bool" where
  "matches LabelEquals q e = (toLowerCase (label e) = q)"
| "matches LabelStartsWith q e = prefix q (toLowerCase (label e))"
| "matches LabelContains q e = sublist q (toLowerCase (label e))"
| "matches KeywordEquals q e = (\<exists>k \<in> keywordSet e. toLowerCase k = q)"
| "matches KeywordStartsWith q e = (\<exists>k \<in> keywordSet e. prefix q (toLowerCase k))"
| "matches KeywordContains q e = (\<exists>k \<in> keywordSet e. sublist q (toLowerCase k))"

definition specTable :: "(MatchKind \<times> int) list" where
  "specTable =
     [(LabelEquals, 1000), (LabelStartsWith, 500), (LabelContains, 300),
      (KeywordEquals, 200), (KeywordStartsWith, 150), (KeywordContains, 100)]"

definition specBaseScore :: "string \<Rightarrow> SearchResult \<Rightarrow> int" where
  "specBaseScore q e =
     (case find (\<lambda>row. matches (fst row) q e) specTable of
        None \<Rightarrow> 0
      | Some row \<Rightarrow> snd row)"






section \<open>The selection over the search results\<close>

record TopBarState =
  searchQuery :: string
  searchableItems :: "SearchResult list"
  isSearchFocused :: bool
  isSearchExpanded :: bool
  selectedResultIndex :: int

text \<open>The values of \<open>useState\<close> at mount, for a catalog that is already there or empty.\<close>

definition initialState :: "SearchResult list \<Rightarrow> TopBarState" where
  "initialState items =
     \<lparr>searchQuery = [], searchableItems = items, isSearchFocused = False,
      isSearchExpanded = False, selectedResultIndex = - 1\<rparr>"

text \<open>The memoised \<open>searchResults\<close> of a render.\<close>

definition results :: "TopBarState \<Rightarrow> SearchResult list" where
  "results s = searchResults (searchQuery s) (searchableItems s)"

datatype Key = ArrowDown | ArrowUp | Enter | Escape | OtherKey

text \<open>
  \<open>handleSearchSelect\<close> navigates or scrolls and, on every path, clears the query and
  the focus flag; only the latter is state of the component.
\<close>

definition handleSearchSelect :: "TopBarState \<Rightarrow> TopBarState" where
  "handleSearchSelect s = s\<lparr>searchQuery := [], isSearchFocused := False\<rparr>"

text \<open>
  On Enter the handler reads \<open>searchResults[selectedResultIndex]\<close>; beyond the end this is
  \<open>undefined\<close> and \<open>result.path\<close> throws before any state is set.
\<close>

definition handleSearchKeyDown :: "Key \<Rightarrow> TopBarState \<Rightarrow> TopBarState" where
  "handleSearchKeyDown key s =
     (case key of
        ArrowDown \<Rightarrow>
          s\<lparr>selectedResultIndex :=
              (let prev = selectedResultIndex s
               in if prev < int (length (results s)) - 1 then prev + 1 else prev)\<rparr>
      | ArrowUp \<Rightarrow>
          s\<lparr>selectedResultIndex :=
              (let prev = selectedResultIndex s in if prev > 0 then prev - 1 else - 1)\<rparr>
      | Enter \<Rightarrow>
          if selectedResultIndex s \<ge> 0
          then (if nat (selectedResultIndex s) < length (results s)
                then handleSearchSelect s else s)
          else s
      | Escape \<Rightarrow>
          s\<lparr>isSearchFocused := False, isSearchExpanded := False, searchQuery := []\<rparr>
      | OtherKey \<Rightarrow> s)"

datatype Event =
  KeyDown Key
| Change string
| Focus
| SearchIconClick
| MouseEnter nat
| Click nat
| MouseDownOutside
| ItemsLoaded "SearchResult list"

text \<open>
  The dropdown, with one button per result, is rendered only while the search is expanded
  and focused and there are results; \<open>MouseEnter i\<close> and \<open>Click i\<close> come from the button
  of the result at index \<open>i\<close>, and leave the state alone where there is no such button.
\<close>

definition dropdownShows :: "TopBarState \<Rightarrow> nat \<Rightarrow> bool" where
  "dropdownShows s i = (isSearchExpanded s \<and> isSearchFocused s \<and> i < length (results s))"

fun handler :: "Event \<Rightarrow> TopBarState \<Rightarrow> TopBarState" where
  "handler (KeyDown key) s = handleSearchKeyDown key s"
| "handler (Change text) s = s\<lparr>searchQuery := text\<rparr>"
| "handler Focus s = s\<lparr>isSearchFocused := True\<rparr>"
| "handler SearchIconClick s = s\<lparr>isSearchExpanded := True\<rparr>"
| "handler (MouseEnter i) s =
     (if dropdownShows s i then s\<lparr>selectedResultIndex := int i\<rparr> else s)"
| "handler (Click i) s = (if dropdownShows s i then handleSearchSelect s else s)"
| "handler MouseDownOutside s =
     s\<lparr>isSearchFocused := False, isSearchExpanded := False, searchQuery := []\<rparr>"
| "handler (ItemsLoaded data) s = s\<lparr>searchableItems := data\<rparr>"

text \<open>
  \<open>useEffect(() => setSelectedResultIndex(-1), [searchResults])\<close>: the memo gives a new
  array whenever the query string differs from the one of the last render or a catalog
  has been set, and the effect then runs.
\<close>

definition resultsChanged :: "Event \<Rightarrow> TopBarState \<Rightarrow> TopBarState \<Rightarrow> bool" where
  "resultsChanged e before after =
     (searchQuery after \<noteq> searchQuery before \<or> (case e of ItemsLoaded _ \<Rightarrow> True | _ \<Rightarrow> False))"

definition step :: "TopBarState \<Rightarrow> Event \<Rightarrow> TopBarState" where
  "step s e =
     (let s' = handler e s
      in if resultsChanged e s s' then s'\<lparr>selectedResultIndex := - 1\<rparr> else s')"

definition run :: "TopBarState \<Rightarrow> Event list \<Rightarrow> TopBarState" where
  "run s es = foldl step s es"


text \<open>The selection is \<open>-1\<close> or an index into the results of the current render.\<close>

definition indexValid :: "TopBarState \<Rightarrow> bool" where
  "indexValid s =
     (- 1 \<le> selectedResultIndex s \<and> selectedResultIndex s \<le> int (length (results s)) - 1)"

section \<open>Loading the catalog\<close>

text \<open>
  What the \<open>fetch\<close> of the catalog asset settles with: a rejection, or a response with its
  status and the parsed body (\<open>None\<close> where \<open>response.json()\<close> rejects).
\<close>

datatype FetchOutcome = Rejected | Responded nat "SearchResult list option"

definition ok :: "nat \<Rightarrow> bool" where
  "ok status = (200 \<le> status \<and> status \<le> 299)"

definition failed :: "FetchOutcome \<Rightarrow> bool" where
  "failed outcome =
     (case outcome of Rejected \<Rightarrow> True | Responded status body \<Rightarrow> \<not> ok status \<or> body = None)"

text \<open>
  \<open>loadSearchResults\<close> from the point where the fetch settles.  \<open>isMounted\<close> is the flag
  of the effect at that moment (the cleanup of the effect has set it to false by then if
  the component is gone); the second component of the state is what \<open>console.error\<close> has
  printed.
\<close>

definition loadSearchResults ::
  "FetchOutcome \<Rightarrow> bool \<Rightarrow> TopBarState \<times> string list \<Rightarrow> TopBarState \<times> string list" where
  "loadSearchResults outcome isMounted st =
     (let s = fst st; console = snd st;
          caught = (s, console @ [''Error loading search results:''])
      in case outcome of
           Rejected \<Rightarrow> caught
         | Responded status body \<Rightarrow>
             if \<not> ok status then caught
             else (case body of
                     None \<Rightarrow> caught
                   | Some data \<Rightarrow>
                       if isMounted then (step s (ItemsLoaded data), console)
                       else (s, console)))"


section \<open>The scroll phase of the top bar\<close>

datatype ScrollPhase = Idle | Hide | Show

text \<open>
  \<open>timeout\<close> is the pending \<open>window.setTimeout\<close> of the phase effect, as the milliseconds
  left until it fires.
\<close>

record PhaseState =
  isScrolled :: bool
  scrollPhase :: ScrollPhase
  hasMounted :: bool
  timeout :: "nat option"

definition initialPhase :: PhaseState where
  "initialPhase = \<lparr>isScrolled = False, scrollPhase = Idle, hasMounted = False, timeout = None\<rparr>"

text \<open>
  The effect with dependency \<open>[isScrolled]\<close>.  Its cleanup clears the timeout of the
  previous run before the body runs again, so the new timeout replaces the old one.
\<close>

definition phaseEffect :: "PhaseState \<Rightarrow> PhaseState" where
  "phaseEffect s =
     (if \<not> hasMounted s then s\<lparr>hasMounted := True\<rparr>
      else let nextPhase = (if isScrolled s then Hide else Show)
           in s\<lparr>scrollPhase := nextPhase, timeout := Some 450\<rparr>)"

text \<open>
  \<open>setIsScrolled\<close>: a value equal to the state changes nothing; a different value renders
  again, and the effect runs since its dependency changed.
\<close>

definition setIsScrolled :: "bool \<Rightarrow> PhaseState \<Rightarrow> PhaseState" where
  "setIsScrolled v s = (if v = isScrolled s then s else phaseEffect (s\<lparr>isScrolled := v\<rparr>))"

definition handleScroll_TopBar :: "real \<Rightarrow> PhaseState \<Rightarrow> PhaseState" where
  "handleScroll_TopBar scrollY s = setIsScrolled (scrollY > 100) s"

text \<open>
  Mounting: after the first render, with \<open>isScrolled = false\<close>, the effects run in the
  order of the source.  The scroll effect calls \<open>handleScroll()\<close>, whose state update waits
  for the next render; the phase effect runs for the first time; then the update is
  applied.
\<close>

definition mount :: "real \<Rightarrow> PhaseState" where
  "mount scrollY = handleScroll_TopBar scrollY (phaseEffect initialPhase)"

definition elapse :: "nat \<Rightarrow> PhaseState \<Rightarrow> PhaseState" where
  "elapse ms s =
     (case timeout s of
        None \<Rightarrow> s
      | Some left \<Rightarrow>
          if left \<le> ms then s\<lparr>scrollPhase := Idle, timeout := None\<rparr>
          else s\<lparr>timeout := Some (left - ms)\<rparr>)"


section \<open>The section tracker\<close>

text \<open>
  The document as far as the hook reads it: \<open>getElementById id\<close> is the \<open>offsetTop\<close> of
  the element with that id, \<open>None\<close> where there is no such element.
\<close>

type_synonym Document = "string \<Rightarrow> int option"

definition trackedSections :: "string list" where
  "trackedSections = [''operator-portal'', ''mobile-app'']"

text \<open>
  \<open>.map(...)\<close> gives the pair or \<open>null\<close>, \<open>.filter(...)\<close> keeps what is not \<open>null\<close> (a
  type guard, here \<open>the\<close>), \<open>.sort(...)\<close> orders by ascending \<open>offsetTop\<close> and is stable.
\<close>

definition orderedSections :: "Document \<Rightarrow> string list \<Rightarrow> (string \<times> int) list" where
  "orderedSections getElementById tracked =
     sort_key snd
       (map the
          (filter (\<lambda>item. item \<noteq> None)
             (map (\<lambda>section. case getElementById section of
                                None \<Rightarrow> None
                              | Some offsetTop \<Rightarrow> Some (section, offsetTop))
                tracked)))"

definition visit :: "real \<Rightarrow> string \<times> int \<Rightarrow> string \<Rightarrow> string" where
  "visit scrollPosition entry currentSection =
     (if real_of_int (snd entry) \<le> scrollPosition then fst entry else currentSection)"

definition handleScroll :: "Document \<Rightarrow> real \<Rightarrow> string \<Rightarrow> string" where
  "handleScroll getElementById scrollY activeSection =
     (let scrollPosition = scrollY + 150;
          ordered = orderedSections getElementById trackedSections;
          currentSection = fold (visit scrollPosition) ordered ''home'';
          activeSection1 = currentSection
      in if scrollY < 50 then ''home'' else activeSection1)"

text \<open>The hook's state over a sequence of scroll events, from \<open>useState('home')\<close>.\<close>

definition initialActiveSection :: string where
  "initialActiveSection = ''home''"

definition scrolls :: "(Document \<times> real) list \<Rightarrow> string" where
  "scrolls events = foldl (\<lambda>active ev. handleScroll (fst ev) (snd ev) active) initialActiveSection events"


text \<open>The document of the example in section 8 of the specification.\<close>

definition exampleDocument :: Document where
  "exampleDocument = [''operator-portal'' \<mapsto> 800, ''mobile-app'' \<mapsto> 1600]"

text \<open>The tracked sections that are in the document with a top offset of at most a position.\<close>

definition reached :: "Document \<Rightarrow> real \<Rightarrow> string set" where
  "reached getElementById scrollPosition =
     {section \<in> set trackedSections.
        \<exists>offsetTop. getElementById section = Some offsetTop
                    \<and> real_of_int offsetTop \<le> scrollPosition}"

section \<open>Properties of the ranking\<close>

lemma item_scoreItem: "item (scoreItem q e) = e"
  by (simp add: scoreItem_def Let_def)

lemma insort_key_map:
  "insort_key f (g x) (map g xs) = map g (insort_key (\<lambda>a. f (g a)) x xs)"
  by (induction xs) simp_all

lemma sort_key_map: "sort_key f (map g xs) = map g (sort_key (\<lambda>a. f (g a)) xs)"
  by (induction xs) (simp_all add: insort_key_map)

lemma searchResults_nf:
  assumes "trim q \<noteq> []"
  shows "searchResults q items =
         take 8 (sort_key (\<lambda>e. - combinedScore (toLowerCase q) e)
                  (filter (\<lambda>e. combinedScore (toLowerCase q) e > 0) items))"
proof -
  let ?g = "scoreItem (toLowerCase q)"
  have f: "filter (\<lambda>s. score s > 0) (map ?g items)
           = map ?g (filter (\<lambda>e. combinedScore (toLowerCase q) e > 0) items)"
    by (simp add: filter_map comp_def combinedScore_def)
  have s: "sort_key (\<lambda>s. - score s) (map ?g xs)
           = map ?g (sort_key (\<lambda>e. - combinedScore (toLowerCase q) e) xs)" for xs
    by (simp add: sort_key_map combinedScore_def)
  have m: "map item (map ?g xs) = xs" for xs
    by (simp add: comp_def item_scoreItem)
  show ?thesis
    using assms by (simp only: searchResults_def sortByScore_def Let_def f s m if_False)
qed

lemma sorted_desc_sort_key:
  "sorted_wrt (\<lambda>a b. f b \<le> (f a :: int)) (sort_key (\<lambda>e. - f e) xs)"
proof -
  have "sorted (map (\<lambda>e. - f e) (sort_key (\<lambda>e. - f e) xs))"
    by (rule sorted_sort_key)
  then show ?thesis
    by (simp add: sorted_map)
qed

lemma filter_takeWhile_sorted:
  "sorted_wrt (\<lambda>a b. f b \<le> (f a :: int)) xs \<Longrightarrow>
   filter (\<lambda>e. 0 < f e) xs = takeWhile (\<lambda>e. 0 < f e) xs"
proof (induction xs)
  case Nil
  then show ?case by simp
next
  case (Cons x xs)
  show ?case
  proof (cases "0 < f x")
    case True
    with Cons show ?thesis by simp
  next
    case False
    with Cons.prems have "\<forall>y\<in>set xs. \<not> 0 < f y" by fastforce
    with False show ?thesis by (simp add: filter_empty_conv)
  qed
qed

lemma prefix_filter_take: "prefix (filter P (take n xs)) (filter P xs)"
proof -
  have "prefix (take n xs) xs" by (rule take_is_prefix)
  then show ?thesis by (rule filter_mono_prefix)
qed

text \<open>
  C2.  Whatever the query and the catalog, \<open>searchResults\<close> returns at most 8 entries; each
  of them is an entry of the catalog with a combined score above 0; they are in descending
  order of combined score; for every score, the returned entries with that score are, in
  their order, the first ones with that score in the catalog (the sort is stable); and the
  result is a prefix of the catalog stably sorted by descending score, namely, for a query
  with a non-empty trimmed form, the first 8 of its entries with a positive score.
\<close>

theorem searchResults_top8:
  fixes searchQuery :: string and items :: "SearchResult list"
  defines "sc \<equiv> combinedScore (toLowerCase searchQuery)"
  defines "rs \<equiv> searchResults searchQuery items"
  shows "length rs \<le> 8
       \<and> (\<forall>e \<in> set rs. e \<in> set items \<and> sc e > 0)
       \<and> sorted_wrt (\<lambda>a b. sc a \<ge> sc b) rs
       \<and> (\<forall>k. prefix (filter (\<lambda>e. sc e = k) rs) (filter (\<lambda>e. sc e = k) items))
       \<and> prefix rs (sort_key (\<lambda>e. - sc e) items)
       \<and> (trim searchQuery \<noteq> [] \<longrightarrow>
            rs = take 8 (filter (\<lambda>e. sc e > 0) (sort_key (\<lambda>e. - sc e) items)))"
proof (cases "trim searchQuery = []")
  case True
  then have "rs = []" by (simp add: rs_def searchResults_def)
  with True show ?thesis by simp
next
  case False
  let ?pos = "filter (\<lambda>e. sc e > 0) items"
  let ?S = "sort_key (\<lambda>e. - sc e) ?pos"
  have rs: "rs = take 8 ?S"
    unfolding rs_def sc_def using False by (rule searchResults_nf)
  have len: "length rs \<le> 8" by (simp add: rs)
  have mem: "\<forall>e \<in> set rs. e \<in> set items \<and> sc e > 0"
  proof
    fix e assume "e \<in> set rs"
    then have "e \<in> set ?S" unfolding rs by (rule in_set_takeD)
    then show "e \<in> set items \<and> sc e > 0" by simp
  qed
  have "sorted_wrt (\<lambda>a b. sc b \<le> sc a) ?S" by (rule sorted_desc_sort_key)
  then have srt: "sorted_wrt (\<lambda>a b. sc a \<ge> sc b) rs"
    unfolding rs by (rule sorted_wrt_take)
  have stab: "prefix (filter (\<lambda>e. sc e = k) rs) (filter (\<lambda>e. sc e = k) items)" for k
  proof (cases "0 < k")
    case True
    have "filter (\<lambda>e. - sc e = - k) ?S = filter (\<lambda>e. - sc e = - k) ?pos"
      by (rule sort_key_stable)
    then have "filter (\<lambda>e. sc e = k) ?S = filter (\<lambda>e. sc e = k) ?pos" by simp
    also have "\<dots> = filter (\<lambda>e. sc e = k) items"
      using True by (auto intro: filter_cong)
    finally have "filter (\<lambda>e. sc e = k) ?S = filter (\<lambda>e. sc e = k) items" .
    then show ?thesis
      unfolding rs using prefix_filter_take [of "\<lambda>e. sc e = k" 8 ?S] by simp
  next
    case False
    with mem have "filter (\<lambda>e. sc e = k) rs = []"
      by (auto simp: filter_empty_conv)
    then show ?thesis by simp
  qed
  have full: "sorted_wrt (\<lambda>a b. sc b \<le> sc a) (sort_key (\<lambda>e. - sc e) items)"
    by (rule sorted_desc_sort_key)
  have S: "?S = filter (\<lambda>e. sc e > 0) (sort_key (\<lambda>e. - sc e) items)"
    by (simp add: filter_sort)
  also have "\<dots> = takeWhile (\<lambda>e. sc e > 0) (sort_key (\<lambda>e. - sc e) items)"
    using full by (rule filter_takeWhile_sorted)
  finally have "prefix ?S (sort_key (\<lambda>e. - sc e) items)"
    by (simp add: takeWhile_is_prefix)
  moreover have "prefix rs ?S" unfolding rs by (rule take_is_prefix)
  ultimately have pre: "prefix rs (sort_key (\<lambda>e. - sc e) items)"
    by (rule prefix_order.trans [rotated])
  have top: "rs = take 8 (filter (\<lambda>e. sc e > 0) (sort_key (\<lambda>e. - sc e) items))"
    using rs unfolding S .
  from len mem srt stab pre top show ?thesis by blast
qed

theorem searchResults_top8_witness:
  "trim ''Pay'' \<noteq> []
   \<and> searchResults ''Pay'' [easySetup, payNow]
       = take 8 (filter (\<lambda>e. combinedScore (toLowerCase ''Pay'') e > 0)
                  (sort_key (\<lambda>e. - combinedScore (toLowerCase ''Pay'') e) [easySetup, payNow]))
   \<and> searchResults ''Pay'' [easySetup, payNow] = [payNow, easySetup]"
proof -
  have h: "trim ''Pay'' \<noteq> []" by code_simp
  have v: "searchResults ''Pay'' [easySetup, payNow] = [payNow, easySetup]" by code_simp
  from searchResults_top8 [of "''Pay''" "[easySetup, payNow]"] h v show ?thesis by blast
qed

lemma some_keywordSet: "some (keywords_s e) f = (\<exists>k \<in> keywordSet e. f k)"
  by (simp add: some_def keywordSet_def list_ex_iff split: option.splits)

lemma matchScore_table: "matchScore q e = specBaseScore q e"
  by (simp add: matchScore_def specBaseScore_def specTable_def Let_def some_keywordSet
        startsWith_def includes_s_def)

lemma combinedScore_matchScore:
  "combinedScore q e =
     (if matchScore q e > 0 then numberAdd (matchScore q e) (priorityOr50 e)
      else matchScore q e)"
  by (simp add: combinedScore_def scoreItem_def Let_def)

lemma toNumber_exact: "\<bar>x\<bar> \<le> 2 ^ 53 \<Longrightarrow> toNumber x = x"
  by (simp add: toNumber_def Let_def)

lemma numberAdd_exact:
  assumes "\<bar>a\<bar> \<le> 2 ^ 53" and "\<bar>b\<bar> \<le> 2 ^ 53" and "\<bar>a + b\<bar> \<le> 2 ^ 53"
  shows "numberAdd a b = a + b"
  using assms by (simp add: numberAdd_def toNumber_exact)

lemma matchScore_range: "matchScore q e \<in> {0, 100, 150, 200, 300, 500, 1000}"
  by (simp add: matchScore_def Let_def)

lemma searchResults_member:
  assumes "e \<in> set (searchResults q items)"
  shows "e \<in> set items \<and> combinedScore (toLowerCase q) e > 0"
proof (cases "trim q = []")
  case True
  with assms show ?thesis by (simp add: searchResults_def)
next
  case False
  let ?S = "sort_key (\<lambda>e. - combinedScore (toLowerCase q) e)
              (filter (\<lambda>e. combinedScore (toLowerCase q) e > 0) items)"
  from False have "searchResults q items = take 8 ?S" by (rule searchResults_nf)
  with assms have "e \<in> set (take 8 ?S)" by simp
  then have "e \<in> set ?S" by (rule in_set_takeD)
  then show ?thesis by simp
qed

lemma combinedScore_exact:
  assumes "0 < matchScore q e" and "\<bar>priorityOr50 e\<bar> \<le> 2 ^ 53 - 1000"
  shows "combinedScore q e = matchScore q e + priorityOr50 e"
proof -
  from matchScore_range [of q e] have m: "0 \<le> matchScore q e" "matchScore q e \<le> 1000"
    by auto
  from m assms(2) have "\<bar>matchScore q e\<bar> \<le> 2 ^ 53" and "\<bar>priorityOr50 e\<bar> \<le> 2 ^ 53"
    and "\<bar>matchScore q e + priorityOr50 e\<bar> \<le> 2 ^ 53"
    by simp_all
  then have "numberAdd (matchScore q e) (priorityOr50 e) = matchScore q e + priorityOr50 e"
    by (rule numberAdd_exact)
  with assms(1) show ?thesis by (simp add: combinedScore_matchScore)
qed

text \<open>
  The score before the priority is added is the one of the scoring table, rows tried in
  order and the first matching row deciding; an entry that no row matches is not returned;
  a matching entry gets \<open>item.priority || 50\<close> added.
\<close>

lemma score_table:
  fixes searchQuery :: string
  shows "matchScore (toLowerCase searchQuery) e = specBaseScore (toLowerCase searchQuery) e
       \<and> (specBaseScore (toLowerCase searchQuery) e = 0
            \<longrightarrow> e \<notin> set (searchResults searchQuery items))
       \<and> combinedScore (toLowerCase searchQuery) e =
           (if specBaseScore (toLowerCase searchQuery) e > 0
            then numberAdd (specBaseScore (toLowerCase searchQuery) e) (priorityOr50 e)
            else 0)"
proof -
  let ?q = "toLowerCase searchQuery"
  have base: "matchScore ?q e = specBaseScore ?q e" by (rule matchScore_table)
  have nonneg: "0 \<le> matchScore ?q e"
    using matchScore_range [of ?q e] by auto
  have comb: "combinedScore ?q e =
           (if specBaseScore ?q e > 0
            then numberAdd (specBaseScore ?q e) (priorityOr50 e) else 0)"
    using nonneg by (simp add: combinedScore_matchScore base [symmetric])
  have excl: "e \<notin> set (searchResults searchQuery items)" if "specBaseScore ?q e = 0"
  proof
    assume "e \<in> set (searchResults searchQuery items)"
    then have "combinedScore ?q e > 0" by (simp add: searchResults_member)
    with comb that show False by simp
  qed
  from base comb excl show ?thesis by blast
qed

text \<open>
  C1.  The claim that every entry with a positive base score has its priority added, 50
  only where the priority is unset, fails on the code where the priority is 0.  The exact
  match below has base score 1000 and priority 0, and its combined score is 1050; it is
  returned before the same entry with priority 49, contrary to the comments
  \<open>Add priority to score\<close> and \<open>Higher priority = shown first\<close> of the source.
\<close>

theorem priority_zero_scored_as_50:
  "trim ''pay now'' \<noteq> []
   \<and> priority (payNow\<lparr>priority := Some 0\<rparr>) = Some 0
   \<and> matchScore (toLowerCase ''pay now'') (payNow\<lparr>priority := Some 0\<rparr>) = 1000
   \<and> combinedScore (toLowerCase ''pay now'') (payNow\<lparr>priority := Some 0\<rparr>) = 1050
   \<and> combinedScore (toLowerCase ''pay now'') (payNow\<lparr>priority := Some 49\<rparr>) = 1049
   \<and> searchResults ''pay now'' [payNow\<lparr>priority := Some 49\<rparr>, payNow\<lparr>priority := Some 0\<rparr>]
       = [payNow\<lparr>priority := Some 0\<rparr>, payNow\<lparr>priority := Some 49\<rparr>]"
  by code_simp

text \<open>
  C9.  For a matching entry the amount added to the base score is the priority where that
  is a number other than 0, and 50 otherwise, the sum being the one of Numbers, which is
  the exact sum for every amount of magnitude up to \<open>2^53 - 1000\<close>; an entry with
  priority 0 gets the combined score it would get with the priority unset.
\<close>

theorem priority_falsy_default:
  "(matchScore query e > 0 \<longrightarrow>
      combinedScore query e =
        numberAdd (matchScore query e)
          (case priority e of None \<Rightarrow> 50 | Some p \<Rightarrow> if p \<noteq> 0 then p else 50))
   \<and> (matchScore query e > 0 \<and> \<bar>priorityOr50 e\<bar> \<le> 2 ^ 53 - 1000 \<longrightarrow>
        combinedScore query e =
          matchScore query e
          + (case priority e of None \<Rightarrow> 50 | Some p \<Rightarrow> if p \<noteq> 0 then p else 50))
   \<and> (priority e = Some 0 \<longrightarrow>
        combinedScore query e = combinedScore query (e\<lparr>priority := None\<rparr>))"
proof -
  have amount: "priorityOr50 e
      = (case priority e of None \<Rightarrow> 50 | Some p \<Rightarrow> if p \<noteq> 0 then p else 50)"
    by (simp add: priorityOr50_def split: option.splits)
  have rounded: "combinedScore query e = numberAdd (matchScore query e) (priorityOr50 e)"
    if "matchScore query e > 0"
    using that by (simp add: combinedScore_matchScore)
  have exact: "combinedScore query e = matchScore query e + priorityOr50 e"
    if "matchScore query e > 0" "\<bar>priorityOr50 e\<bar> \<le> 2 ^ 53 - 1000"
    using that by (rule combinedScore_exact)
  have m: "matchScore query (e\<lparr>priority := None\<rparr>) = matchScore query e"
    by (simp add: matchScore_def)
  have unset: "combinedScore query e = combinedScore query (e\<lparr>priority := None\<rparr>)"
    if "priority e = Some 0"
    using that by (simp add: combinedScore_matchScore m priorityOr50_def)
  from rounded exact unset show ?thesis unfolding amount [symmetric] by blast
qed

theorem priority_falsy_default_witness:
  "matchScore ''pay'' (easySetup\<lparr>priority := Some 0\<rparr>) > 0
   \<and> \<bar>priorityOr50 (easySetup\<lparr>priority := Some 0\<rparr>)\<bar> \<le> 2 ^ 53 - 1000
   \<and> priority (easySetup\<lparr>priority := Some 0\<rparr>) = Some 0
   \<and> combinedScore ''pay'' (easySetup\<lparr>priority := Some 0\<rparr>) = 250
   \<and> combinedScore ''pay'' (easySetup\<lparr>priority := Some 0, priority := None\<rparr>) = 250"
proof -
  have v: "matchScore ''pay'' (easySetup\<lparr>priority := Some 0\<rparr>) = 200" by code_simp
  have p: "priority (easySetup\<lparr>priority := Some 0\<rparr>) = Some 0" by simp
  have b: "\<bar>priorityOr50 (easySetup\<lparr>priority := Some 0\<rparr>)\<bar> \<le> 2 ^ 53 - 1000"
    by (simp add: priorityOr50_def)
  from priority_falsy_default [of "''pay''" "easySetup\<lparr>priority := Some 0\<rparr>"] v p b
  show ?thesis by simp
qed










text \<open>
  Beyond exact sums the tiers meet even for equal priorities: with priority \<open>2^63\<close> the
  sums \<open>2^63 + 1000\<close> and \<open>2^63 + 500\<close> are the same Number, and with priority \<open>2^59\<close>
  so are \<open>2^59 + 300\<close> and \<open>2^59 + 200\<close>; the catalog order then decides.
\<close>

lemma tiers_meet_beyond_exact_sums:
  "numberAdd 1000 (2 ^ 63) = 2 ^ 63 \<and> numberAdd 500 (2 ^ 63) = 2 ^ 63
   \<and> numberAdd 300 (2 ^ 59) = 2 ^ 59 + 256 \<and> numberAdd 200 (2 ^ 59) = 2 ^ 59 + 256
   \<and> searchResults ''pay''
        [payNow\<lparr>priority := Some (2 ^ 63)\<rparr>, payNow\<lparr>label := ''Pay'', priority := Some (2 ^ 63)\<rparr>]
       = [payNow\<lparr>priority := Some (2 ^ 63)\<rparr>, payNow\<lparr>label := ''Pay'', priority := Some (2 ^ 63)\<rparr>]"
  by code_simp


section \<open>Case and white space in the query\<close>

lemma of_char_lowerChar:
  "(of_char (lowerChar c) :: nat) =
     (let n = of_char c
      in if (65 \<le> n \<and> n \<le> 90) \<or> (192 \<le> n \<and> n \<le> 222 \<and> n \<noteq> 215) then n + 32 else n)"
  by (auto simp: lowerChar_def Let_def)

lemma lowerChar_idem: "lowerChar (lowerChar c) = lowerChar c"
proof -
  have "(of_char (lowerChar (lowerChar c)) :: nat) = of_char (lowerChar c)"
    unfolding of_char_lowerChar [of "lowerChar c"]
    by (auto simp: of_char_lowerChar Let_def)
  then show ?thesis by simp
qed

lemma toLowerCase_idem: "toLowerCase (toLowerCase s) = toLowerCase s"
  by (simp add: toLowerCase_def lowerChar_idem)

lemma isWhiteSpace_lowerChar: "isWhiteSpace (lowerChar c) = isWhiteSpace c"
  by (auto simp: isWhiteSpace_def of_char_lowerChar Let_def)

lemma trim_empty_iff: "trim s = [] \<longleftrightarrow> (\<forall>c \<in> set s. isWhiteSpace c)"
proof -
  have "trim s = [] \<longleftrightarrow> dropWhile isWhiteSpace (rev (dropWhile isWhiteSpace s)) = []"
    by (simp add: trim_def)
  also have "\<dots> \<longleftrightarrow> (\<forall>c \<in> set (dropWhile isWhiteSpace s). isWhiteSpace c)"
    by (simp only: dropWhile_eq_Nil_conv set_rev)
  also have "\<dots> \<longleftrightarrow> dropWhile isWhiteSpace s = []"
  proof (cases "dropWhile isWhiteSpace s")
    case Nil
    show ?thesis unfolding Nil by simp
  next
    case (Cons x xs)
    then have "\<not> isWhiteSpace x" by (metis hd_dropWhile list.distinct(1) list.sel(1))
    then show ?thesis unfolding Cons by simp
  qed
  also have "\<dots> \<longleftrightarrow> (\<forall>c \<in> set s. isWhiteSpace c)"
    by (simp add: dropWhile_eq_Nil_conv)
  finally show ?thesis .
qed

lemma trim_toLowerCase_empty: "trim (toLowerCase s) = [] \<longleftrightarrow> trim s = []"
  by (simp add: trim_empty_iff toLowerCase_def isWhiteSpace_lowerChar)

lemma searchResults_cong_query:
  assumes "toLowerCase q1 = toLowerCase q2" and "trim q1 = [] \<longleftrightarrow> trim q2 = []"
  shows "searchResults q1 items = searchResults q2 items"
  using assms by (simp add: searchResults_def)

lemma upperChar_lower:
  assumes "upperChar c = Some u" and "c \<noteq> CHR 0xDF"
  shows "toLowerCase u = [lowerChar c] \<and> (\<forall>d \<in> set u. isWhiteSpace d = isWhiteSpace c)"
proof -
  define n where "n = (of_char c :: nat)"
  have ne: "n \<noteq> 223"
  proof
    assume "n = 223"
    moreover have "(of_char (CHR 0xDF) :: nat) = 223" by simp
    ultimately have "(of_char c :: nat) = of_char (CHR 0xDF)" by (simp add: n_def)
    then have "c = CHR 0xDF" by (rule of_char_eqI)
    with assms(2) show False by simp
  qed
  show ?thesis
  proof (cases "(97 \<le> n \<and> n \<le> 122) \<or> (224 \<le> n \<and> n \<le> 254 \<and> n \<noteq> 247)")
    case True
    with assms(1) ne have u: "u = [char_of (n - 32)]"
      by (simp add: upperChar_def n_def [symmetric] split: if_splits)
    from True have "n - 32 < 256" by arith
    then have m: "(of_char (char_of (n - 32) :: char) :: nat) = n - 32"
      by simp
    from True have plus: "n - 32 + 32 = n" by arith
    from True have upper: "(65 \<le> n - 32 \<and> n - 32 \<le> 90)
        \<or> (192 \<le> n - 32 \<and> n - 32 \<le> 222 \<and> n - 32 \<noteq> 215)" by arith
    have "lowerChar (char_of (n - 32)) = char_of (n - 32 + 32)"
      unfolding lowerChar_def m Let_def using upper by (rule if_P)
    then have "lowerChar (char_of (n - 32)) = char_of n"
      by (simp only: plus)
    moreover have "char_of n = c" by (simp add: n_def)
    moreover from True have "\<not> ((65 \<le> n \<and> n \<le> 90) \<or> (192 \<le> n \<and> n \<le> 222 \<and> n \<noteq> 215))"
      by arith
    then have "lowerChar c = c"
      unfolding lowerChar_def n_def [symmetric] Let_def by (rule if_not_P)
    moreover have "isWhiteSpace (char_of (n - 32)) = isWhiteSpace c"
      unfolding isWhiteSpace_def m n_def [symmetric] Let_def using True by arith
    ultimately show ?thesis by (simp add: u toLowerCase_def)
  next
    case False
    with assms(1) ne have "u = [c]"
      by (auto simp: upperChar_def n_def [symmetric] split: if_splits)
    then show ?thesis by (simp add: toLowerCase_def)
  qed
qed

lemma toUpperCase_lower:
  "toUpperCase q = Some u \<Longrightarrow> CHR 0xDF \<notin> set q \<Longrightarrow>
   toLowerCase u = toLowerCase q \<and> ((\<forall>d \<in> set u. isWhiteSpace d) \<longleftrightarrow> (\<forall>c \<in> set q. isWhiteSpace c))"
proof (induction q arbitrary: u)
  case Nil
  then show ?case by (simp add: toLowerCase_def)
next
  case (Cons c cs)
  from Cons.prems(1) obtain v vs where v: "upperChar c = Some v"
    and vs: "toUpperCase cs = Some vs" and u: "u = v @ vs"
    by (auto split: option.splits)
  from Cons.prems(2) have c: "c \<noteq> CHR 0xDF" and cs: "CHR 0xDF \<notin> set cs" by auto
  from upperChar_lower [OF v c] Cons.IH [OF vs cs] u show ?case
    by (auto simp: toLowerCase_def)
qed

text \<open>
  C6 (amended).  \<open>searchResults\<close> is a function of the query and the catalog alone.  For
  every query and catalog it returns the same list for the lower-cased query as for the
  query; it returns the same list for the upper-cased query as for the query whenever the
  query does not contain the sharp s (U+00DF) and its upper-casing stays in the character
  range of the model; and it returns the empty list for every query whose trimmed form is
  empty, so for every query of white space only.
\<close>

theorem searchResults_case_insensitive:
  fixes q :: string
  shows "searchResults (toLowerCase q) items = searchResults q items
       \<and> (\<forall>u. toUpperCase q = Some u \<and> CHR 0xDF \<notin> set q
              \<longrightarrow> searchResults u items = searchResults q items)
       \<and> (trim q = [] \<longrightarrow> searchResults q items = [])
       \<and> ((\<forall>c \<in> set q. isWhiteSpace c) \<longrightarrow> searchResults q items = [])"
proof -
  have lower: "searchResults (toLowerCase q) items = searchResults q items"
    by (rule searchResults_cong_query) (simp_all add: toLowerCase_idem trim_toLowerCase_empty)
  have upper: "searchResults u items = searchResults q items"
    if "toUpperCase q = Some u" "CHR 0xDF \<notin> set q" for u
  proof (rule searchResults_cong_query)
    from toUpperCase_lower [OF that] show "toLowerCase u = toLowerCase q" by simp
    from toUpperCase_lower [OF that] show "trim u = [] \<longleftrightarrow> trim q = []"
      by (simp add: trim_empty_iff)
  qed
  have empty: "searchResults q items = []" if "trim q = []"
    using that by (simp add: searchResults_def)
  have blank: "searchResults q items = []" if "\<forall>c \<in> set q. isWhiteSpace c"
    using that empty by (simp add: trim_empty_iff)
  from lower upper empty blank show ?thesis by blast
qed

theorem searchResults_case_insensitive_witness:
  "toUpperCase ''Pay'' = Some ''PAY'' \<and> CHR 0xDF \<notin> set ''Pay''
   \<and> searchResults ''PAY'' [easySetup, payNow] = searchResults ''Pay'' [easySetup, payNow]
   \<and> trim [CHR 0x20, CHR 0x09] = []
   \<and> searchResults [CHR 0x20, CHR 0x09] [easySetup, payNow] = []"
proof -
  have h1: "toUpperCase ''Pay'' = Some ''PAY''" by code_simp
  have h2: "CHR 0xDF \<notin> set ''Pay''" by simp
  have h3: "trim [CHR 0x20, CHR 0x09] = []" by code_simp
  from searchResults_case_insensitive [of "''Pay''" "[easySetup, payNow]"]
       searchResults_case_insensitive [of "[CHR 0x20, CHR 0x09]" "[easySetup, payNow]"]
       h1 h2 h3
  show ?thesis by blast
qed

text \<open>
  C6 as stated fails for the query that is the single letter U+00DF: its upper-casing is
  \<open>SS\<close>, which the label \<open>Business Development Position\<close> and the keyword \<open>message\<close>
  contain, while no label or keyword of the shipped catalog contains U+00DF.
\<close>

theorem upper_case_counterexample:
  "toUpperCase [CHR 0xDF] = Some ''SS''
   \<and> searchResults [CHR 0xDF] SEARCHABLE_ITEMS = []
   \<and> map id_s (searchResults ''SS'' SEARCHABLE_ITEMS) = [''job-business'', ''contact'']"
proof -
  have a: "toUpperCase [CHR 0xDF] = Some ''SS''" by code_simp
  have b: "searchResults [CHR 0xDF] SEARCHABLE_ITEMS = []" by code_simp
  have c: "map id_s (searchResults ''SS'' SEARCHABLE_ITEMS) = [''job-business'', ''contact'']"
    by code_simp
  from a b c show ?thesis by blast
qed


section \<open>Properties of the section tracker\<close>

lemma fold_visit:
  "fold (visit pos) xs cur =
     (let ys = filter (\<lambda>p. real_of_int (snd p) \<le> pos) xs
      in if ys = [] then cur else fst (last ys))"
proof (induction xs rule: rev_induct)
  case Nil
  then show ?case by simp
next
  case (snoc x xs)
  then show ?case by (simp add: visit_def Let_def)
qed

lemma set_present:
  "set (map the (filter (\<lambda>item. item \<noteq> None) (map f xs))) = {y. \<exists>x \<in> set xs. f x = Some y}"
  by (induction xs) auto

lemma set_orderedSections:
  "set (orderedSections doc tracked) = {(s, off). s \<in> set tracked \<and> doc s = Some off}"
  unfolding orderedSections_def set_sort set_present
  by (auto split: option.splits)

lemma sorted_orderedSections: "sorted (map snd (orderedSections doc tracked))"
  by (simp add: orderedSections_def)

lemma sorted_last_max:
  "sorted (map f ys) \<Longrightarrow> p \<in> set ys \<Longrightarrow> f p \<le> (f (last ys) :: int)"
proof (induction ys)
  case Nil
  then show ?case by simp
next
  case (Cons y ys)
  show ?case
  proof (cases "ys = []")
    case True
    with Cons.prems show ?thesis by simp
  next
    case False
    then have l: "last ys \<in> set ys" by simp
    from Cons.prems(1) have s: "sorted (map f ys)" and le: "\<forall>z \<in> set ys. f y \<le> f z"
      by simp_all
    from Cons.prems(2) consider "p = y" | "p \<in> set ys" by auto
    then show ?thesis
    proof cases
      case 1
      with le l False show ?thesis by simp
    next
      case 2
      with Cons.IH [OF s] False show ?thesis by simp
    qed
  qed
qed

lemma handleScroll_cases:
  fixes getElementById :: Document and scrollY :: real
  defines "ys \<equiv> filter (\<lambda>p. real_of_int (snd p) \<le> scrollY + 150)
                   (orderedSections getElementById trackedSections)"
  shows "handleScroll getElementById scrollY previous =
           (if scrollY < 50 \<or> ys = [] then ''home'' else fst (last ys))"
  by (simp add: handleScroll_def Let_def fold_visit ys_def)

lemma reached_ordered:
  "set (filter (\<lambda>p. real_of_int (snd p) \<le> pos) (orderedSections doc trackedSections))
     = {(s, off). s \<in> reached doc pos \<and> doc s = Some off}"
  by (auto simp: set_orderedSections reached_def)

text \<open>
  C4.  On a scroll event the tracker sets the active section to \<open>home\<close> whenever the
  scroll offset is below 50.  Otherwise it sets it to \<open>home\<close> when no tracked section
  that is in the document has a top offset of at most the scroll offset plus 150, and
  else to such a section, one whose top offset is the greatest among those.  A tracked
  section that is not in the document is never chosen and raises nothing.
\<close>

theorem handleScroll_furthest_reached:
  fixes getElementById :: Document and scrollY :: real
  shows "(scrollY < 50 \<longrightarrow> handleScroll getElementById scrollY previous = ''home'')
       \<and> (50 \<le> scrollY \<and> reached getElementById (scrollY + 150) = {}
            \<longrightarrow> handleScroll getElementById scrollY previous = ''home'')
       \<and> (50 \<le> scrollY \<and> reached getElementById (scrollY + 150) \<noteq> {}
            \<longrightarrow> handleScroll getElementById scrollY previous
                  \<in> reached getElementById (scrollY + 150)
                \<and> (\<forall>s \<in> reached getElementById (scrollY + 150).
                      the (getElementById s)
                      \<le> the (getElementById (handleScroll getElementById scrollY previous))))"
proof -
  let ?doc = getElementById
  let ?pos = "scrollY + 150"
  let ?ord = "orderedSections ?doc trackedSections"
  let ?ys = "filter (\<lambda>p. real_of_int (snd p) \<le> ?pos) ?ord"
  let ?active = "handleScroll ?doc scrollY previous"
  have active: "?active = (if scrollY < 50 \<or> ?ys = [] then ''home'' else fst (last ?ys))"
    by (rule handleScroll_cases)
  have ys: "set ?ys = {(s, off). s \<in> reached ?doc ?pos \<and> ?doc s = Some off}"
    by (rule reached_ordered)
  have none: "?ys = [] \<longleftrightarrow> reached ?doc ?pos = {}"
  proof
    assume "?ys = []"
    then have "set ?ys = {}" by (simp only: set_empty)
    then show "reached ?doc ?pos = {}"
      unfolding ys by (auto simp: reached_def)
  next
    assume "reached ?doc ?pos = {}"
    then have "set ?ys = {}" unfolding ys by simp
    then show "?ys = []" by (simp only: set_empty)
  qed
  have top: "?active = ''home''" if "scrollY < 50"
    using that by (simp add: active)
  have furthest: "?active \<in> reached ?doc ?pos
      \<and> (\<forall>s \<in> reached ?doc ?pos. the (?doc s) \<le> the (?doc ?active))"
    if "50 \<le> scrollY" and "reached ?doc ?pos \<noteq> {}"
  proof -
    from that none have ne: "?ys \<noteq> []" by simp
    with that have a: "?active = fst (last ?ys)" by (simp add: active)
    from ne have "last ?ys \<in> set ?ys" by (rule last_in_set)
    then have l: "fst (last ?ys) \<in> reached ?doc ?pos"
      and d: "?doc (fst (last ?ys)) = Some (snd (last ?ys))"
      unfolding ys by auto
    have srt: "sorted (map snd ?ys)"
      using sorted_orderedSections by (rule sorted_filter)
    have "the (?doc s) \<le> the (?doc ?active)" if "s \<in> reached ?doc ?pos" for s
    proof -
      from that obtain off where off: "?doc s = Some off"
        by (auto simp: reached_def)
      with that have "(s, off) \<in> set ?ys" unfolding ys by simp
      with srt have "snd (s, off) \<le> snd (last ?ys)" by (rule sorted_last_max)
      with off d a show ?thesis by simp
    qed
    with l a show ?thesis by simp
  qed
  have c1: "scrollY < 50 \<longrightarrow> ?active = ''home''"
  proof (rule impI)
    assume t: "scrollY < 50"
    show "?active = ''home''" by (rule top [OF t])
  qed
  have c2: "50 \<le> scrollY \<and> reached ?doc ?pos = {} \<longrightarrow> ?active = ''home''"
    by (simp add: active none)
  have c3: "50 \<le> scrollY \<and> reached ?doc ?pos \<noteq> {}
      \<longrightarrow> ?active \<in> reached ?doc ?pos
        \<and> (\<forall>s \<in> reached ?doc ?pos. the (?doc s) \<le> the (?doc ?active))"
  proof (rule impI)
    assume h: "50 \<le> scrollY \<and> reached ?doc ?pos \<noteq> {}"
    show "?active \<in> reached ?doc ?pos
        \<and> (\<forall>s \<in> reached ?doc ?pos. the (?doc s) \<le> the (?doc ?active))"
      by (rule furthest [OF conjunct1 [OF h] conjunct2 [OF h]])
  qed
  show ?thesis by (rule conjI [OF c1 conjI [OF c2 c3]])
qed

theorem handleScroll_furthest_reached_witness:
  "(50::real) \<le> 900 \<and> reached exampleDocument (900 + 150) \<noteq> {}
   \<and> handleScroll exampleDocument 900 ''home'' \<in> reached exampleDocument (900 + 150)
   \<and> handleScroll exampleDocument 900 ''home'' = ''operator-portal''
   \<and> handleScroll exampleDocument 1700 ''operator-portal'' = ''mobile-app''
   \<and> (10::real) < 50 \<and> handleScroll exampleDocument 10 ''mobile-app'' = ''home''"
proof -
  have r: "reached exampleDocument (900 + 150) = {''operator-portal''}"
    by (auto simp: reached_def exampleDocument_def trackedSections_def)
  have b: "handleScroll exampleDocument 1700 ''operator-portal'' = ''mobile-app''"
    by (simp add: handleScroll_def orderedSections_def visit_def trackedSections_def
          exampleDocument_def)
  from handleScroll_furthest_reached [of 900 exampleDocument "''home''"] r
  have a: "handleScroll exampleDocument 900 ''home'' = ''operator-portal''" by simp
  from handleScroll_furthest_reached [of 10 exampleDocument "''mobile-app''"]
  have c: "handleScroll exampleDocument 10 ''mobile-app'' = ''home''" by simp
  from a b c r show ?thesis by simp
qed

lemma handleScroll_range:
  "handleScroll doc y a \<in> {''home''} \<union> set trackedSections"
proof -
  let ?ys = "filter (\<lambda>p. real_of_int (snd p) \<le> y + 150) (orderedSections doc trackedSections)"
  show ?thesis
  proof (cases "y < 50 \<or> ?ys = []")
    case True
    then show ?thesis by (simp add: handleScroll_cases)
  next
    case False
    then have "?ys \<noteq> []" by blast
    then have "last ?ys \<in> set ?ys" by (rule last_in_set)
    then have "fst (last ?ys) \<in> set trackedSections"
      unfolding reached_ordered by (auto simp: reached_def)
    with False show ?thesis by (simp add: handleScroll_cases)
  qed
qed

text \<open>
  C10.  The active section is \<open>home\<close> before any scroll event, and after any sequence of
  scroll events, whatever the documents and scroll offsets, it is \<open>home\<close>,
  \<open>operator-portal\<close> or \<open>mobile-app\<close>.
\<close>

theorem activeSection_allowlist:
  "scrolls [] = ''home''
   \<and> scrolls events \<in> {''home'', ''operator-portal'', ''mobile-app''}"
proof -
  have init: "scrolls [] = ''home''"
    by (simp add: scrolls_def initialActiveSection_def)
  have "scrolls events \<in> {''home''} \<union> set trackedSections"
  proof (cases events rule: rev_cases)
    case Nil
    with init show ?thesis by simp
  next
    case (snoc es e)
    then have "scrolls events = handleScroll (fst e) (snd e) (scrolls es)"
      by (simp add: scrolls_def)
    then show ?thesis using handleScroll_range by simp
  qed
  then have "scrolls events \<in> {''home'', ''operator-portal'', ''mobile-app''}"
    unfolding trackedSections_def by auto
  with init show ?thesis by (rule conjI)
qed


section \<open>Properties of the selection\<close>

lemma results_unchanged:
  "searchQuery s' = searchQuery s \<Longrightarrow> searchableItems s' = searchableItems s \<Longrightarrow>
   results s' = results s"
  by (simp add: results_def)

lemma indexValid_reset: "indexValid (s\<lparr>selectedResultIndex := - 1\<rparr>)"
  by (simp add: indexValid_def results_def)

lemma handler_items:
  "searchableItems (handler e s) = (case e of ItemsLoaded data \<Rightarrow> data | _ \<Rightarrow> searchableItems s)"
  by (cases e) (auto simp: handleSearchKeyDown_def handleSearchSelect_def split: Key.splits)

lemma handler_index:
  assumes "indexValid s" and "searchQuery (handler e s) = searchQuery s"
  shows "- 1 \<le> selectedResultIndex (handler e s)
       \<and> selectedResultIndex (handler e s) \<le> int (length (results s)) - 1"
proof (cases e)
  case (KeyDown key)
  with assms(1) show ?thesis
    by (cases key)
       (auto simp: indexValid_def handleSearchKeyDown_def handleSearchSelect_def Let_def)
next
  case (MouseEnter i)
  with assms(1) show ?thesis
    by (auto simp: indexValid_def dropdownShows_def)
next
  case (Click i)
  with assms(1) show ?thesis
    by (auto simp: indexValid_def handleSearchSelect_def)
qed (use assms(1) in \<open>auto simp: indexValid_def\<close>)

lemma indexValid_step:
  assumes "indexValid s"
  shows "indexValid (step s e)"
proof (cases "resultsChanged e s (handler e s)")
  case True
  then show ?thesis by (simp add: step_def Let_def indexValid_reset)
next
  case False
  then have q: "searchQuery (handler e s) = searchQuery s"
    and i: "searchableItems (handler e s) = searchableItems s"
    by (auto simp: resultsChanged_def handler_items split: Event.splits)
  from q i have "results (handler e s) = results s" by (rule results_unchanged)
  with handler_index [OF assms q] False show ?thesis
    by (simp add: step_def Let_def indexValid_def)
qed

lemma indexValid_run: "indexValid s \<Longrightarrow> indexValid (run s es)"
  unfolding run_def by (induction es arbitrary: s) (simp_all add: indexValid_step)

lemma indexValid_initial: "indexValid (initialState items)"
  by (simp add: indexValid_def initialState_def results_def)

text \<open>
  C5.  After any sequence of events from the initial state the selected index lies between
  \<open>-1\<close> and the number of current results minus one.  ArrowDown adds one while the index
  is below the last index and changes nothing at the last index; ArrowUp, from an index
  of at least \<open>-1\<close>, subtracts one while the index is above \<open>-1\<close> and changes nothing at
  \<open>-1\<close>; and whenever an event makes the memo produce a new result list, the index is
  \<open>-1\<close> afterwards.
\<close>

theorem selection_in_range:
  "indexValid (run (initialState items) es)
   \<and> selectedResultIndex (step s (KeyDown ArrowDown)) =
       (if selectedResultIndex s < int (length (results s)) - 1
        then selectedResultIndex s + 1 else selectedResultIndex s)
   \<and> (selectedResultIndex s = int (length (results s)) - 1
        \<longrightarrow> step s (KeyDown ArrowDown) = s)
   \<and> (- 1 \<le> selectedResultIndex s \<longrightarrow>
        selectedResultIndex (step s (KeyDown ArrowUp)) =
          (if selectedResultIndex s > - 1
           then selectedResultIndex s - 1 else selectedResultIndex s))
   \<and> (selectedResultIndex s = - 1 \<longrightarrow> step s (KeyDown ArrowUp) = s)
   \<and> (resultsChanged e s (handler e s) \<longrightarrow> selectedResultIndex (step s e) = - 1)"
proof -
  have inv: "indexValid (run (initialState items) es)"
    using indexValid_initial by (rule indexValid_run)
  have down: "selectedResultIndex (step s (KeyDown ArrowDown)) =
       (if selectedResultIndex s < int (length (results s)) - 1
        then selectedResultIndex s + 1 else selectedResultIndex s)"
    by (simp add: step_def resultsChanged_def handleSearchKeyDown_def Let_def)
  have last: "step s (KeyDown ArrowDown) = s"
    if "selectedResultIndex s = int (length (results s)) - 1"
    using that by (simp add: step_def resultsChanged_def handleSearchKeyDown_def Let_def)
  have up: "selectedResultIndex (step s (KeyDown ArrowUp)) =
          (if selectedResultIndex s > - 1
           then selectedResultIndex s - 1 else selectedResultIndex s)"
    if "- 1 \<le> selectedResultIndex s"
    using that by (simp add: step_def resultsChanged_def handleSearchKeyDown_def Let_def)
  have none: "step s (KeyDown ArrowUp) = s" if "selectedResultIndex s = - 1"
    using that by (simp add: step_def resultsChanged_def handleSearchKeyDown_def Let_def)
  have reset: "selectedResultIndex (step s e) = - 1" if "resultsChanged e s (handler e s)"
    using that by (simp add: step_def Let_def)
  from inv down last up none reset show ?thesis by blast
qed

theorem selection_in_range_witness:
  "selectedResultIndex
     (run (initialState [easySetup, payNow])
        [SearchIconClick, Focus, Change ''pay'', KeyDown ArrowDown, KeyDown ArrowDown]) = 1
   \<and> indexValid
       (run (initialState [easySetup, payNow])
          [SearchIconClick, Focus, Change ''pay'', KeyDown ArrowDown, KeyDown ArrowDown])
   \<and> step (run (initialState [easySetup, payNow])
              [SearchIconClick, Focus, Change ''pay'', KeyDown ArrowDown, KeyDown ArrowDown])
         (KeyDown ArrowDown)
       = run (initialState [easySetup, payNow])
           [SearchIconClick, Focus, Change ''pay'', KeyDown ArrowDown, KeyDown ArrowDown]
   \<and> resultsChanged (Change ''pa'')
         (run (initialState [easySetup, payNow])
            [SearchIconClick, Focus, Change ''pay'', KeyDown ArrowDown, KeyDown ArrowDown])
         (handler (Change ''pa'')
            (run (initialState [easySetup, payNow])
               [SearchIconClick, Focus, Change ''pay'', KeyDown ArrowDown, KeyDown ArrowDown]))
   \<and> selectedResultIndex
       (step (run (initialState [easySetup, payNow])
                [SearchIconClick, Focus, Change ''pay'', KeyDown ArrowDown, KeyDown ArrowDown])
          (Change ''pa'')) = - 1"
proof -
  let ?s = "run (initialState [easySetup, payNow])
              [SearchIconClick, Focus, Change ''pay'', KeyDown ArrowDown, KeyDown ArrowDown]"
  have i: "selectedResultIndex ?s = 1" by code_simp
  have l: "int (length (results ?s)) - 1 = 1" by code_simp
  have c: "resultsChanged (Change ''pa'') ?s (handler (Change ''pa'') ?s)" by code_simp
  from selection_in_range [of "[easySetup, payNow]"
         "[SearchIconClick, Focus, Change ''pay'', KeyDown ArrowDown, KeyDown ArrowDown]"
         ?s "Change ''pa''"] i l c
  show ?thesis by simp
qed


section \<open>Properties of the catalog loader\<close>

lemma searchResults_empty_catalog: "searchResults q [] = []"
  by (simp add: searchResults_def sortByScore_def)

text \<open>
  C7.  When the fetch of the catalog fails (it rejects, the status is not 2xx, or the body
  does not parse), the error is caught and logged and the state is the one before; when
  the component has been unmounted before the fetch settles, the state is the one before
  whatever the outcome; in both cases a catalog that was empty stays empty and every
  search returns no results.  Only a successful fetch that settles while mounted sets
  the catalog.
\<close>

theorem loadSearchResults_failure:
  "(failed outcome \<longrightarrow>
      loadSearchResults outcome isMounted (s, console)
        = (s, console @ [''Error loading search results:'']))
   \<and> fst (loadSearchResults outcome False (s, console)) = s
   \<and> ((failed outcome \<or> \<not> isMounted) \<and> searchableItems s = [] \<longrightarrow>
        searchResults q
          (searchableItems (fst (loadSearchResults outcome isMounted (s, console)))) = [])
   \<and> (ok status \<and> isMounted \<longrightarrow>
        searchableItems
          (fst (loadSearchResults (Responded status (Some data)) isMounted (s, console)))
          = data)"
proof -
  have caught: "loadSearchResults outcome isMounted (s, console)
        = (s, console @ [''Error loading search results:''])" if "failed outcome"
    using that
    by (auto simp: failed_def loadSearchResults_def Let_def split: FetchOutcome.splits)
  have dropped: "fst (loadSearchResults outcome False (s, console)) = s"
    by (simp add: loadSearchResults_def Let_def split: FetchOutcome.splits option.splits)
  have same: "fst (loadSearchResults outcome isMounted (s, console)) = s"
    if "failed outcome \<or> \<not> isMounted"
    using that caught dropped by auto
  have none: "searchResults q
          (searchableItems (fst (loadSearchResults outcome isMounted (s, console)))) = []"
    if "failed outcome \<or> \<not> isMounted" "searchableItems s = []"
    using that by (simp add: same searchResults_empty_catalog)
  have applied: "searchableItems
          (fst (loadSearchResults (Responded status (Some data)) isMounted (s, console)))
          = data" if "ok status" "isMounted"
    using that by (simp add: loadSearchResults_def Let_def step_def resultsChanged_def)
  from caught dropped none applied show ?thesis by blast
qed

theorem loadSearchResults_failure_witness:
  "failed (Responded 404 None)
   \<and> loadSearchResults (Responded 404 None) True (initialState [], [])
       = (initialState [], [''Error loading search results:''])
   \<and> searchableItems (initialState []) = []
   \<and> searchResults ''pay''
        (searchableItems (fst (loadSearchResults (Responded 404 None) True
           (initialState [], [])))) = []
   \<and> searchResults ''pay''
        (searchableItems (fst (loadSearchResults (Responded 200 (Some [payNow])) False
           (initialState [], [])))) = []
   \<and> ok 200
   \<and> searchableItems (fst (loadSearchResults (Responded 200 (Some [payNow])) True
         (initialState [], []))) = [payNow]"
proof -
  have f: "failed (Responded 404 None)" by (simp add: failed_def ok_def)
  have e: "searchableItems (initialState []) = []" by (simp add: initialState_def)
  have k: "ok 200" by (simp add: ok_def)
  from loadSearchResults_failure
         [of "Responded 404 None" True "initialState []" "[]" "''pay''" 200 "[payNow]"]
       loadSearchResults_failure
         [of "Responded 200 (Some [payNow])" False "initialState []" "[]" "''pay''" 200
             "[payNow]"]
       loadSearchResults_failure
         [of "Responded 200 (Some [payNow])" True "initialState []" "[]" "''pay''" 200
             "[payNow]"]
       f e k
  show ?thesis by simp
qed


section \<open>Properties of the scroll phase\<close>

lemma phase_crossings:
  assumes "hasMounted s"
  shows "(\<not> isScrolled s \<and> scrollY > 100 \<longrightarrow>
            scrollPhase (handleScroll_TopBar scrollY s) = Hide
            \<and> timeout (handleScroll_TopBar scrollY s) = Some 450)
       \<and> (isScrolled s \<and> \<not> scrollY > 100 \<longrightarrow>
            scrollPhase (handleScroll_TopBar scrollY s) = Show
            \<and> timeout (handleScroll_TopBar scrollY s) = Some 450)
       \<and> (isScrolled s = (scrollY > 100) \<longrightarrow> handleScroll_TopBar scrollY s = s)"
  using assms by (auto simp: handleScroll_TopBar_def setIsScrolled_def phaseEffect_def Let_def)

lemma phase_reverts:
  assumes "timeout s = Some left"
  shows "(left \<le> ms \<longrightarrow> scrollPhase (elapse ms s) = Idle \<and> timeout (elapse ms s) = None)
       \<and> (ms < left \<longrightarrow> scrollPhase (elapse ms s) = scrollPhase s
                          \<and> timeout (elapse ms s) = Some (left - ms))"
  using assms by (simp add: elapse_def)

lemma mount_at_top: "scrollY \<le> 100 \<Longrightarrow> scrollPhase (mount scrollY) = Idle"
  by (simp add: mount_def handleScroll_TopBar_def setIsScrolled_def phaseEffect_def
        initialPhase_def)

text \<open>
  C8.  The claim that no phase transition fires on the first mount, even when the page is
  already scrolled past the threshold, fails on the code: mounted at a scroll offset of
  200 the top bar goes to phase \<open>hide\<close> with a timeout of 450 ms, after which it is idle
  again.  (\<open>phase_crossings\<close>, \<open>phase_reverts\<close> and \<open>mount_at_top\<close> above are the parts
  of the claim that hold.)
\<close>

theorem mount_scrolled_sets_hide:
  "scrollPhase initialPhase = Idle
   \<and> scrollPhase (mount 200) = Hide
   \<and> timeout (mount 200) = Some 450
   \<and> scrollPhase (elapse 450 (mount 200)) = Idle"
  by (simp add: mount_def handleScroll_TopBar_def setIsScrolled_def phaseEffect_def
        initialPhase_def elapse_def)

end
